theory Spec2Isabelle
  imports Complex_Main "HOL-Library.Log_Nat"
begin

section \<open>Python numbers\<close>

text \<open>
  The adjuster (\<^verbatim>\<open>src/adjuster.py\<close>, class \<^verbatim>\<open>LearningAdjuster\<close>) computes with Python
  ints and floats. An int is an \<open>int\<close> or a \<open>nat\<close>. A finite float is the rational number it
  denotes; every float operation computes the exact rational result and rounds it to the
  nearest IEEE 754 binary64 value, ties to the even significand (\<open>fl\<close>). The sign of a zero
  is not modelled.
\<close>

datatype py_error = ValueError | OverflowError | ZeroDivisionError

definition and_then :: "py_error + 'a \<Rightarrow> ('a \<Rightarrow> py_error + 'b) \<Rightarrow> py_error + 'b" where
  "and_then m f = (case m of Inl e \<Rightarrow> Inl e | Inr x \<Rightarrow> f x)"

definition round_half_even :: "rat \<Rightarrow> int" where
  "round_half_even x =
     (let f = \<lfloor>x\<rfloor>; r = x - of_int f
      in if r < 1 / 2 then f else if 1 / 2 < r then f + 1 else if even f then f else f + 1)"

text \<open>\<open>log2_floor x\<close> is the binary exponent \<open>e\<close> of a positive \<open>x\<close>: \<open>2 ^ e \<le> x < 2 ^ (e + 1)\<close>.\<close>

definition log2_floor :: "rat \<Rightarrow> int" where
  "log2_floor x = (if 1 \<le> x then bitlen \<lfloor>x\<rfloor> - 1 else - bitlen (\<lceil>1 / x\<rceil> - 1))"

text \<open>
  Rounding to binary64 with an unbounded exponent above. The floats around \<open>x\<close> are the
  multiples of \<open>2\<close> to the power \<open>ulp_exp x\<close>: 53 significant bits, and never a bit below
  \<open>2 ^ - 1074\<close> (the subnormal numbers).
\<close>

definition ulp_exp :: "rat \<Rightarrow> int" where
  "ulp_exp x = max (log2_floor \<bar>x\<bar> - 52) (- 1074)"

definition fl :: "rat \<Rightarrow> rat" where
  "fl x =
     (if x = 0 then 0
      else of_int (round_half_even (x / power_int 2 (ulp_exp x))) * power_int 2 (ulp_exp x))"

datatype pyfloat = Finite rat | PosInf | NegInf | NaN

text \<open>The float a result rounds to: an infinity once the rounded value leaves the binary64 range.\<close>

definition to_double :: "rat \<Rightarrow> pyfloat" where
  "to_double x =
     (let y = fl x
      in if 2 ^ 1024 \<le> y then PosInf else if y \<le> - (2 ^ 1024) then NegInf else Finite y)"

text \<open>\<^verbatim>\<open>float(n)\<close>, as applied to the int operand of a mixed operation.\<close>

definition float_of_int :: "int \<Rightarrow> py_error + rat" where
  "float_of_int n = (case to_double (of_int n) of Finite x \<Rightarrow> Inr x | _ \<Rightarrow> Inl OverflowError)"

text \<open>\<^verbatim>\<open>a / b\<close> on two ints: the correctly rounded quotient.\<close>

definition int_truediv :: "int \<Rightarrow> int \<Rightarrow> py_error + rat" where
  "int_truediv a b =
     (if b = 0 then Inl ZeroDivisionError
      else case to_double (of_int a / of_int b) of Finite q \<Rightarrow> Inr q | _ \<Rightarrow> Inl OverflowError)"

definition float_mul :: "rat \<Rightarrow> rat \<Rightarrow> pyfloat" where
  "float_mul x y = to_double (x * y)"

fun float_add :: "pyfloat \<Rightarrow> pyfloat \<Rightarrow> pyfloat" where
  "float_add (Finite a) (Finite b) = to_double (a + b)"
| "float_add NaN _ = NaN"
| "float_add _ NaN = NaN"
| "float_add PosInf NegInf = NaN"
| "float_add NegInf PosInf = NaN"
| "float_add PosInf _ = PosInf"
| "float_add _ PosInf = PosInf"
| "float_add NegInf _ = NegInf"
| "float_add _ NegInf = NegInf"


text \<open>\<^verbatim>\<open>int(x)\<close>: truncation towards zero.\<close>

definition trunc :: "rat \<Rightarrow> int" where
  "trunc x = (if 0 \<le> x then \<lfloor>x\<rfloor> else \<lceil>x\<rceil>)"

fun int_of_float :: "pyfloat \<Rightarrow> py_error + int" where
  "int_of_float (Finite x) = Inr (trunc x)"
| "int_of_float NaN = Inl ValueError"
| "int_of_float _ = Inl OverflowError"

text \<open>
  \<^verbatim>\<open>round(x, ndigits)\<close> on a float, for \<open>ndigits\<close> of 1 or 2: the exact value of \<open>x\<close> is
  rounded to that many decimals, ties to even, and the decimal is read back as a float.
\<close>

definition round_ndigits :: "nat \<Rightarrow> rat \<Rightarrow> rat" where
  "round_ndigits ndigits x = fl (of_int (round_half_even (x * 10 ^ ndigits)) / 10 ^ ndigits)"

fun round_float :: "nat \<Rightarrow> pyfloat \<Rightarrow> pyfloat" where
  "round_float ndigits (Finite x) = Finite (round_ndigits ndigits x)"
| "round_float ndigits y = y"

text \<open>\<^verbatim>\<open>min(100, x)\<close>: the int 100 unless \<open>x < 100\<close>.\<close>

fun min_100 :: "pyfloat \<Rightarrow> pyfloat" where
  "min_100 (Finite x) = (if x < 100 then Finite x else Finite 100)"
| "min_100 NegInf = NegInf"
| "min_100 _ = Finite 100"

text \<open>Comparisons of a float with an int constant; every comparison with a NaN is false.\<close>

fun float_lt :: "pyfloat \<Rightarrow> rat \<Rightarrow> bool" where
  "float_lt (Finite x) c = (x < c)"
| "float_lt NegInf c = True"
| "float_lt _ c = False"

fun float_gt :: "pyfloat \<Rightarrow> rat \<Rightarrow> bool" where
  "float_gt (Finite x) c = (c < x)"
| "float_gt PosInf c = True"
| "float_gt _ c = False"

fun float_ge :: "pyfloat \<Rightarrow> rat \<Rightarrow> bool" where
  "float_ge (Finite x) c = (c \<le> x)"
| "float_ge PosInf c = True"
| "float_ge _ c = False"

text \<open>Truthiness of an optional float: \<^verbatim>\<open>None\<close> and zero are false.\<close>

fun truthy_float :: "pyfloat option \<Rightarrow> bool" where
  "truthy_float None = False"
| "truthy_float (Some (Finite x)) = (x \<noteq> 0)"
| "truthy_float (Some _) = True"

text \<open>\<^verbatim>\<open>str(n)\<close> for the f-strings.\<close>

function str_nat :: "nat \<Rightarrow> string" where
  "str_nat n =
     (if n < 10 then [char_of (48 + n)] else str_nat (n div 10) @ [char_of (48 + n mod 10)])"
  by pat_completeness auto
termination
  by (relation "measure (\<lambda>n. n)") auto

definition str_int :: "int \<Rightarrow> string" where
  "str_int i = (if i < 0 then CHR ''-'' # str_nat (nat (- i)) else str_nat (nat i))"

definition startswith :: "string \<Rightarrow> string \<Rightarrow> bool" where
  "startswith s p = (take (length p) s = p)"

section \<open>Dates\<close>

text \<open>
  A \<^verbatim>\<open>datetime\<close> is its calendar date, as the day number \<^verbatim>\<open>date.toordinal()\<close>, and the
  microsecond within that day. Date arithmetic is arithmetic on day numbers.

  Parsing is the work of the \<^verbatim>\<open>datetime\<close> library. A timestamp string is represented by
  what \<^verbatim>\<open>datetime.fromisoformat\<close> makes of it: \<open>Iso dt\<close> is a string that parses to \<open>dt\<close>
  (\<^verbatim>\<open>dt.isoformat()\<close> is one), \<open>NotIso s\<close> a string \<open>s\<close> that does not parse. In the same
  way \<open>Ymd d\<close> is a string that \<^verbatim>\<open>strptime(_, "%Y-%m-%d")\<close> parses to the date with day
  number \<open>d\<close>, and \<open>NotYmd s\<close> a string \<open>s\<close> that it rejects, the empty string among them.
\<close>

record datetime =
  dt_date :: int
  dt_time :: int

datatype iso_text = Iso datetime | NotIso string

datatype ymd_text = Ymd int | NotYmd string

fun fromisoformat :: "iso_text \<Rightarrow> py_error + datetime" where
  "fromisoformat (Iso dt) = Inr dt"
| "fromisoformat (NotIso s) = Inl ValueError"

fun strptime_ymd :: "ymd_text \<Rightarrow> py_error + int" where
  "strptime_ymd (Ymd d) = Inr d"
| "strptime_ymd (NotYmd s) = Inl ValueError"

fun truthy_text :: "ymd_text \<Rightarrow> bool" where
  "truthy_text (Ymd d) = True"
| "truthy_text (NotYmd s) = (s \<noteq> [])"

section \<open>The two stores\<close>

text \<open>
  The JSON objects of \<^verbatim>\<open>schedule.json\<close> and \<^verbatim>\<open>progress.json\<close>. A key that may be absent
  is an optional field; the code reads it with \<^verbatim>\<open>.get(key, default)\<close>. An object with
  arbitrary keys is an association list in insertion order. The counters are natural
  numbers.
\<close>

record task =
  ident :: string
  description :: string
  duration_minutes :: "int option"
  priority :: "string option"

record day_schedule =
  focus :: "string option"
  tasks :: "task list option"

record schedule =
  current_phase :: "int option"
  daily_tasks :: "(string \<times> day_schedule) list option"

record log_entry =
  date :: iso_text
  task_id :: string
  hours_spent :: pyfloat
  difficulty_rating :: "int option"

record stats =
  total_tasks_completed :: "nat option"
  total_hours_studied :: "pyfloat option"
  current_streak_days :: "nat option"
  longest_streak_days :: "nat option"
  completion_rate_percent :: "pyfloat option"
  average_daily_hours :: "pyfloat option"

record phase_status =
  status :: "string option"
  progress_percent :: "pyfloat option"

record progress =
  start_date :: "ymd_text option"
  daily_log :: "log_entry list option"
  overall_stats :: "stats option"
  phase_progress :: "(string \<times> phase_status) list option"
  last_updated :: "iso_text option"

definition empty_stats :: stats where
  "empty_stats =
     \<lparr>total_tasks_completed = None, total_hours_studied = None, current_streak_days = None,
      longest_streak_days = None, completion_rate_percent = None, average_daily_hours = None\<rparr>"

text \<open>The store of a first run: \<^verbatim>\<open>_load_json\<close> returns \<^verbatim>\<open>{}\<close> when there is no file.\<close>

definition empty_progress :: progress where
  "empty_progress =
     \<lparr>start_date = None, daily_log = None, overall_stats = None, phase_progress = None,
      last_updated = None\<rparr>"

text \<open>The reads with a default.\<close>

definition get_or :: "'a \<Rightarrow> 'a option \<Rightarrow> 'a" where
  "get_or d v = (case v of None \<Rightarrow> d | Some x \<Rightarrow> x)"

section \<open>Completion recording\<close>

text \<open>
  Every operation takes the stores it reads and returns the store it leaves, or the Python
  exception it raises. \<open>now\<close> is the reading of \<^verbatim>\<open>datetime.now()\<close>: one reading for the
  whole of a call.
\<close>

text \<open>\<^verbatim>\<open>sum(len(day_data.get("tasks", [])) for day_data in ...values())\<close>\<close>

definition total_scheduled :: "schedule \<Rightarrow> nat" where
  "total_scheduled sched =
     sum_list (map (\<lambda>(day, day_data). length (get_or [] (tasks day_data)))
       (get_or [] (daily_tasks sched)))"

text \<open>
  \<^verbatim>\<open>_update_completion_rate(stats)\<close>, with its two computations named after the variables
  they assign. \<^verbatim>\<open>max(1, days_elapsed / 7)\<close> is the int 1 unless the quotient exceeds 1; the
  product of two ints is exact and \<^verbatim>\<open>int\<close> leaves it as it is.
\<close>

definition expected_tasks :: "nat \<Rightarrow> int \<Rightarrow> py_error + int" where
  "expected_tasks total_scheduled_per_week days_elapsed =
     and_then (int_truediv days_elapsed 7) (\<lambda>w.
       if 1 < w
       then and_then (float_of_int (int total_scheduled_per_week))
              (\<lambda>t. int_of_float (float_mul t w))
       else Inr (int total_scheduled_per_week))"

definition completion_rate :: "nat \<Rightarrow> int \<Rightarrow> py_error + pyfloat" where
  "completion_rate completed_tasks expected =
     and_then (int_truediv (int completed_tasks) expected)
       (\<lambda>q. Inr (round_float 1 (min_100 (float_mul q 100))))"

definition update_completion_rate ::
    "schedule \<Rightarrow> progress \<Rightarrow> datetime \<Rightarrow> stats \<Rightarrow> py_error + stats" where
  "update_completion_rate sched prog now stats =
     (let total_scheduled_per_week = total_scheduled sched
      in if total_scheduled_per_week = 0 then Inr stats
         else case start_date prog of
           None \<Rightarrow> Inr stats
         | Some s \<Rightarrow>
             if \<not> truthy_text s then Inr stats
             else and_then (strptime_ymd s) (\<lambda>start.
               let days_elapsed = dt_date now - start + 1
               in and_then (expected_tasks total_scheduled_per_week days_elapsed)
                    (\<lambda>expected.
                       let completed_tasks = get_or 0 (total_tasks_completed stats)
                       in if 0 < expected
                          then and_then (completion_rate completed_tasks expected)
                                 (\<lambda>rate. Inr (stats\<lparr>completion_rate_percent := Some rate\<rparr>))
                          else Inr stats)))"

text \<open>The list comprehension of \<^verbatim>\<open>_update_streak\<close>: it parses the date of every entry.\<close>

fun activities_on :: "int \<Rightarrow> log_entry list \<Rightarrow> py_error + log_entry list" where
  "activities_on day [] = Inr []"
| "activities_on day (entry # entries) =
     and_then (fromisoformat (date entry)) (\<lambda>dt.
       and_then (activities_on day entries) (\<lambda>rest.
         Inr (if dt_date dt = day then entry # rest else rest)))"

text \<open>
  \<^verbatim>\<open>_update_streak()\<close>, in the three steps of its body: the branch on whether the last
  entry is dated today, the update of the longest streak, and the write to the store.
\<close>

definition streak_step :: "stats \<Rightarrow> log_entry list \<Rightarrow> int \<Rightarrow> int \<Rightarrow> py_error + stats" where
  "streak_step stats entries today last_activity =
     (if last_activity = today
      then and_then (activities_on (today - 1) entries) (\<lambda>yesterday_activities.
             Inr (if yesterday_activities \<noteq> [] \<or> get_or 0 (current_streak_days stats) = 0
                  then stats\<lparr>current_streak_days :=
                         Some (get_or 0 (current_streak_days stats) + 1)\<rparr>
                  else stats))
      else Inr (if 1 < today - last_activity
                then stats\<lparr>current_streak_days := Some 0\<rparr>
                else stats))"

definition raise_longest :: "stats \<Rightarrow> stats" where
  "raise_longest stats =
     (if get_or 0 (longest_streak_days stats) < get_or 0 (current_streak_days stats)
      then stats\<lparr>longest_streak_days := current_streak_days stats\<rparr>
      else stats)"

definition update_streak :: "progress \<Rightarrow> datetime \<Rightarrow> py_error + progress" where
  "update_streak prog now =
     (let stats = get_or empty_stats (overall_stats prog);
          entries = get_or [] (daily_log prog)
      in if entries = [] then Inr prog
         else and_then (fromisoformat (date (last entries))) (\<lambda>last_dt.
                and_then (streak_step stats entries (dt_date now) (dt_date last_dt))
                  (\<lambda>stats1. Inr (prog\<lparr>overall_stats := Some (raise_longest stats1)\<rparr>))))"

text \<open>
  \<^verbatim>\<open>complete_task(task_id, hours_spent, difficulty_rating)\<close>, in the steps its comments
  name: update the daily log, update the overall stats, update the completion rate, update
  the streak, update the time of the last modification. The result is the store that
  \<^verbatim>\<open>_save_json\<close> writes; the acknowledgment returned to the caller is a constant.
\<close>

definition new_entry :: "datetime \<Rightarrow> string \<Rightarrow> pyfloat option \<Rightarrow> int option \<Rightarrow> log_entry" where
  "new_entry now tid hours rating =
     \<lparr>date = Iso now, task_id = tid,
      hours_spent = (if truthy_float hours then the hours else Finite 0),
      difficulty_rating = rating\<rparr>"

definition append_log :: "progress \<Rightarrow> log_entry \<Rightarrow> progress" where
  "append_log prog entry = prog\<lparr>daily_log := Some (get_or [] (daily_log prog) @ [entry])\<rparr>"

definition count_completion :: "stats \<Rightarrow> pyfloat option \<Rightarrow> stats" where
  "count_completion stats hours =
     (let stats1 = stats\<lparr>total_tasks_completed :=
                     Some (get_or 0 (total_tasks_completed stats) + 1)\<rparr>
      in if truthy_float hours
         then stats1\<lparr>total_hours_studied :=
                Some (float_add (get_or (Finite 0) (total_hours_studied stats1)) (the hours))\<rparr>
         else stats1)"

text \<open>
  The dictionary \<^verbatim>\<open>stats\<close> that the method updates is the store's own \<^verbatim>\<open>overall_stats\<close>
  when the store has that key. Otherwise it is a fresh dictionary, and nothing puts it
  into the store: \<^verbatim>\<open>_update_streak\<close> reads the store again.
\<close>

definition shared_stats :: "progress \<Rightarrow> stats \<Rightarrow> progress" where
  "shared_stats prog stats =
     (case overall_stats prog of
        None \<Rightarrow> prog
      | Some _ \<Rightarrow> prog\<lparr>overall_stats := Some stats\<rparr>)"

definition complete_task ::
    "schedule \<Rightarrow> progress \<Rightarrow> datetime \<Rightarrow> string \<Rightarrow> pyfloat option \<Rightarrow> int option
      \<Rightarrow> py_error + progress" where
  "complete_task sched prog now tid hours rating =
     (let prog1 = append_log prog (new_entry now tid hours rating);
          stats = count_completion (get_or empty_stats (overall_stats prog1)) hours
      in and_then (update_completion_rate sched prog1 now stats) (\<lambda>stats'.
           and_then (update_streak (shared_stats prog1 stats') now) (\<lambda>prog2.
             Inr (prog2\<lparr>last_updated := Some (Iso now)\<rparr>))))"

section \<open>Recommendations and statistics\<close>

record recommendation =
  rec_type :: string
  rec_priority :: string
  rec_message :: string
  rec_action :: string

definition reduce_tasks_rec :: recommendation where
  "reduce_tasks_rec =
     \<lparr>rec_type = ''workload'', rec_priority = ''high'',
      rec_message = ''Completion rate is low. Consider reducing daily task load.'',
      rec_action = ''reduce_tasks''\<rparr>"

definition increase_difficulty_rec :: recommendation where
  "increase_difficulty_rec =
     \<lparr>rec_type = ''workload'', rec_priority = ''medium'',
      rec_message = ''Excellent progress! Consider increasing challenge level.'',
      rec_action = ''increase_difficulty''\<rparr>"

definition maintain_rec :: "nat \<Rightarrow> recommendation" where
  "maintain_rec current_streak =
     \<lparr>rec_type = ''motivation'', rec_priority = ''info'',
      rec_message = ''Great job! '' @ str_nat current_streak @ '' day streak! Keep it up!'',
      rec_action = ''maintain''\<rparr>"

definition start_streak_rec :: recommendation where
  "start_streak_rec =
     \<lparr>rec_type = ''motivation'', rec_priority = ''high'',
      rec_message = ''Start building your streak today!'',
      rec_action = ''start_streak''\<rparr>"

definition advance_phase_rec :: recommendation where
  "advance_phase_rec =
     \<lparr>rec_type = ''progression'', rec_priority = ''medium'',
      rec_message = ''Ready to advance to the next phase!'',
      rec_action = ''advance_phase''\<rparr>"

text \<open>\<^verbatim>\<open>get_recommendations()\<close>: the three rules, each appending to the list in turn.\<close>

definition workload_rule :: "pyfloat \<Rightarrow> recommendation list" where
  "workload_rule rate =
     (if float_lt rate 70 then [reduce_tasks_rec]
      else if float_gt rate 90 then [increase_difficulty_rec]
      else [])"

definition streak_rule :: "nat \<Rightarrow> recommendation list" where
  "streak_rule current_streak =
     (if 7 \<le> current_streak then [maintain_rec current_streak]
      else if current_streak = 0 then [start_streak_rec]
      else [])"

definition phase_rule :: "int \<Rightarrow> (string \<times> phase_status) list \<Rightarrow> recommendation list" where
  "phase_rule current phases =
     (let phase_key = ''phase_'' @ str_int current @ ''_''
      in concat (map (\<lambda>(key, phase_data).
           if startswith key phase_key
              \<and> float_ge (get_or (Finite 0) (progress_percent phase_data)) 80
           then [advance_phase_rec] else []) phases))"

definition get_recommendations :: "schedule \<Rightarrow> progress \<Rightarrow> recommendation list" where
  "get_recommendations sched prog =
     (let stats = get_or empty_stats (overall_stats prog)
      in workload_rule (get_or (Finite 0) (completion_rate_percent stats))
         @ streak_rule (get_or 0 (current_streak_days stats))
         @ phase_rule (get_or 1 (current_phase sched)) (get_or [] (phase_progress prog)))"

text \<open>
  \<^verbatim>\<open>get_stats()\<close>. It writes \<^verbatim>\<open>average_daily_hours\<close> into the dictionary \<^verbatim>\<open>stats\<close>, which
  is the store's own \<^verbatim>\<open>overall_stats\<close> when the store has that key; the operation returns
  its report together with the store it leaves in memory.
\<close>

record phase_summary =
  summary_status :: string
  summary_progress :: pyfloat

record report =
  overall :: stats
  phases :: "(string \<times> phase_summary) list"
  recommendations :: "recommendation list"





section \<open>Schedule adjustment\<close>

text \<open>\<^verbatim>\<open>int(task.get("duration_minutes", 60) * 1.2)\<close>; the literal \<^verbatim>\<open>1.2\<close> is a float.\<close>

definition scale_duration :: "int \<Rightarrow> py_error + int" where
  "scale_duration minutes =
     and_then (float_of_int minutes) (\<lambda>x. int_of_float (float_mul x (fl (12 / 10))))"

definition increase_task :: "task \<Rightarrow> py_error + task" where
  "increase_task t =
     and_then (scale_duration (get_or 60 (duration_minutes t)))
       (\<lambda>m. Inr (t\<lparr>duration_minutes := Some m\<rparr>))"

text \<open>A loop whose body may raise: the first exception ends it.\<close>

fun for_each :: "('a \<Rightarrow> py_error + 'b) \<Rightarrow> 'a list \<Rightarrow> py_error + 'b list" where
  "for_each f [] = Inr []"
| "for_each f (x # xs) =
     and_then (f x) (\<lambda>y. and_then (for_each f xs) (\<lambda>ys. Inr (y # ys)))"

definition reduce_day :: "string \<times> day_schedule \<Rightarrow> string \<times> day_schedule" where
  "reduce_day = (\<lambda>(day, day_data).
     (day, day_data\<lparr>tasks :=
        Some (filter (\<lambda>t. priority t \<noteq> Some ''low'') (get_or [] (tasks day_data)))\<rparr>))"

definition increase_day :: "string \<times> day_schedule \<Rightarrow> py_error + string \<times> day_schedule" where
  "increase_day = (\<lambda>(day, day_data).
     case tasks day_data of
       None \<Rightarrow> Inr (day, day_data)
     | Some ts \<Rightarrow> and_then (for_each increase_task ts) (\<lambda>ts'. Inr (day, day_data\<lparr>tasks := Some ts'\<rparr>)))"

text \<open>
  \<^verbatim>\<open>adjust_schedule(adjustment_type)\<close>: the schedule that \<^verbatim>\<open>_save_json\<close> writes, or the
  exception raised before it.
\<close>

definition adjust_schedule :: "string \<Rightarrow> schedule \<Rightarrow> py_error + schedule" where
  "adjust_schedule adjustment_type sched =
     (if adjustment_type = ''reduce_tasks''
      then Inr (case daily_tasks sched of
                  None \<Rightarrow> sched
                | Some days \<Rightarrow> sched\<lparr>daily_tasks := Some (map reduce_day days)\<rparr>)
      else if adjustment_type = ''increase_difficulty''
      then (case daily_tasks sched of
              None \<Rightarrow> Inr sched
            | Some days \<Rightarrow>
                and_then (for_each increase_day days)
                  (\<lambda>days'. Inr (sched\<lparr>daily_tasks := Some days'\<rparr>)))
      else if adjustment_type = ''advance_phase''
      then Inr (sched\<lparr>current_phase := Some (min (get_or 1 (current_phase sched) + 1) 4)\<rparr>)
      else Inr sched)"

section \<open>Reading the stores\<close>

text \<open>The streak counters as the code reads them, with the default 0.\<close>

definition current_streak :: "progress \<Rightarrow> nat" where
  "current_streak prog = get_or 0 (current_streak_days (get_or empty_stats (overall_stats prog)))"

definition longest_streak :: "progress \<Rightarrow> nat" where
  "longest_streak prog = get_or 0 (longest_streak_days (get_or empty_stats (overall_stats prog)))"

text \<open>The completion rate held by a store, if any, and the rate \<^verbatim>\<open>get_recommendations\<close> reads.\<close>

definition stored_rate :: "progress \<Rightarrow> pyfloat option" where
  "stored_rate prog =
     (case overall_stats prog of None \<Rightarrow> None | Some stats \<Rightarrow> completion_rate_percent stats)"

definition read_rate :: "progress \<Rightarrow> pyfloat" where
  "read_rate prog =
     get_or (Finite 0) (completion_rate_percent (get_or empty_stats (overall_stats prog)))"

text \<open>
  Successive runs of \<^verbatim>\<open>--complete\<close> against one schedule: each run loads the store the
  previous run saved. A call is the clock reading and the three arguments.
\<close>

type_synonym call = "datetime \<times> string \<times> pyfloat option \<times> int option"

fun complete_tasks :: "schedule \<Rightarrow> progress \<Rightarrow> call list \<Rightarrow> py_error + progress" where
  "complete_tasks sched prog [] = Inr prog"
| "complete_tasks sched prog ((now, tid, hours, rating) # calls) =
     and_then (complete_task sched prog now tid hours rating)
       (\<lambda>prog'. complete_tasks sched prog' calls)"

section \<open>The formulas of the specification\<close>



text \<open>
  A change applied to every task of every day and to nothing else, and the change that
  \<^verbatim>\<open>increase_difficulty\<close> is said to make: the duration (60 when absent) times 1.2,
  truncated to an integer.
\<close>

definition map_tasks :: "(task \<Rightarrow> task) \<Rightarrow> schedule \<Rightarrow> schedule" where
  "map_tasks f sched =
     sched\<lparr>daily_tasks :=
       map_option (map (\<lambda>(day, day_data).
         (day, day_data\<lparr>tasks := map_option (map f) (tasks day_data)\<rparr>))) (daily_tasks sched)\<rparr>"

definition all_tasks :: "schedule \<Rightarrow> task list" where
  "all_tasks sched =
     concat (map (\<lambda>(day, day_data). get_or [] (tasks day_data)) (get_or [] (daily_tasks sched)))"

definition scaled :: "task \<Rightarrow> task" where
  "scaled t =
     t\<lparr>duration_minutes := Some (trunc (of_int (get_or 60 (duration_minutes t)) * (12 / 10)))\<rparr>"


section \<open>Example stores\<close>

text \<open>The clock reads 2026-11-04 09:30; the day number of 2026-11-04 is 739924.\<close>

definition example_now :: datetime where
  "example_now = \<lparr>dt_date = 739924, dt_time = 34200000000\<rparr>"

definition example_tasks :: "task list" where
  "example_tasks =
     [\<lparr>ident = ''t1'', description = ''Read a chapter'', duration_minutes = Some 60,
       priority = Some ''high''\<rparr>,
      \<lparr>ident = ''t2'', description = ''Flash cards'', duration_minutes = Some 25,
       priority = None\<rparr>,
      \<lparr>ident = ''t3'', description = ''Watch a lecture'', duration_minutes = None,
       priority = Some ''low''\<rparr>,
      \<lparr>ident = ''t4'', description = ''Exercises'', duration_minutes = Some 48,
       priority = Some ''medium''\<rparr>,
      \<lparr>ident = ''t5'', description = ''Review notes'', duration_minutes = Some 7,
       priority = Some ''low''\<rparr>]"

text \<open>Ten tasks a week, in phase 4.\<close>

definition example_schedule :: schedule where
  "example_schedule =
     \<lparr>current_phase = Some 4,
      daily_tasks = Some
        [(''monday'', \<lparr>focus = Some ''theory'', tasks = Some example_tasks\<rparr>),
         (''thursday'', \<lparr>focus = None, tasks = Some example_tasks\<rparr>),
         (''sunday'', \<lparr>focus = Some ''rest'', tasks = None\<rparr>)]\<rparr>"

text \<open>A schedule without any task.\<close>

definition idle_schedule :: schedule where
  "idle_schedule =
     \<lparr>current_phase = Some 1,
      daily_tasks = Some [(''monday'', \<lparr>focus = Some ''theory'', tasks = Some []\<rparr>),
                          (''sunday'', \<lparr>focus = None, tasks = None\<rparr>)]\<rparr>"

text \<open>
  A store begun on 2026-09-10 (day number 739869, 56 days before the clock reading,
  that day included), with 22 tasks completed and its last entry on 2026-11-01.
\<close>

definition example_entry :: log_entry where
  "example_entry =
     \<lparr>date = Iso \<lparr>dt_date = 739921, dt_time = 72000000000\<rparr>, task_id = ''t4'',
      hours_spent = Finite (3 / 2), difficulty_rating = Some 3\<rparr>"

definition example_stats :: stats where
  "example_stats =
     \<lparr>total_tasks_completed = Some 22, total_hours_studied = Some (Finite 33),
      current_streak_days = Some 5, longest_streak_days = Some 9,
      completion_rate_percent = Some (Finite 70), average_daily_hours = None\<rparr>"

definition example_progress :: progress where
  "example_progress =
     \<lparr>start_date = Some (Ymd 739869), daily_log = Some [example_entry],
      overall_stats = Some example_stats,
      phase_progress = Some
        [(''phase_4_projects'', \<lparr>status = Some ''in_progress'', progress_percent = Some (Finite 85)\<rparr>)],
      last_updated = Some (Iso \<lparr>dt_date = 739921, dt_time = 72000000000\<rparr>)\<rparr>"

text \<open>A schedule whose only task lasts 3752999689475414 minutes.\<close>

definition long_schedule :: schedule where
  "long_schedule =
     \<lparr>current_phase = None,
      daily_tasks = Some
        [(''monday'', \<lparr>focus = None, tasks = Some
           [\<lparr>ident = ''t1'', description = ''Thesis'', duration_minutes = Some 3752999689475414,
             priority = None\<rparr>]\<rparr>)]\<rparr>"




section \<open>Properties\<close>

subsection \<open>Auxiliary facts\<close>

lemma and_then_Inr [simp]: "and_then (Inr x) f = f x"
  by (simp add: and_then_def)

lemma and_then_Inl [simp]: "and_then (Inl e) f = Inl e"
  by (simp add: and_then_def)

lemma and_then_Inr_iff:
  "and_then m f = Inr y \<longleftrightarrow> (\<exists>x. m = Inr x \<and> f x = Inr y)"
  by (cases m) simp_all

lemma get_or_simps [simp]: "get_or d None = d" "get_or d (Some x) = x"
  by (simp_all add: get_or_def)

subsection \<open>Rounding to an integer\<close>

lemma round_half_even_of_int [simp]: "round_half_even (of_int n) = n"
  by (simp add: round_half_even_def)

lemma round_half_even_error: "\<bar>of_int (round_half_even y) - y\<bar> \<le> 1 / 2"
proof -
  have "of_int \<lfloor>y\<rfloor> \<le> y" "y < of_int \<lfloor>y\<rfloor> + 1" by linarith+
  then show ?thesis
    by (auto simp: round_half_even_def Let_def)
qed

lemma round_half_even_ge: "of_int n \<le> y \<Longrightarrow> n \<le> round_half_even y"
proof -
  assume "of_int n \<le> y"
  then have "n \<le> \<lfloor>y\<rfloor>" by (simp add: le_floor_iff)
  then show ?thesis by (auto simp: round_half_even_def Let_def)
qed

lemma round_half_even_le: "y \<le> of_int n \<Longrightarrow> round_half_even y \<le> n"
proof -
  assume a: "y \<le> of_int n"
  show ?thesis
  proof (cases "y = of_int n")
    case True
    then show ?thesis by simp
  next
    case False
    with a have "y < of_int n" by simp
    then have "\<lfloor>y\<rfloor> < n" by (simp add: floor_less_iff)
    then show ?thesis by (auto simp: round_half_even_def Let_def)
  qed
qed

lemma round_half_even_near:
  assumes "\<bar>y - of_int n\<bar> < 1 / 2"
  shows "round_half_even y = n"
proof -
  have "\<bar>of_int (round_half_even y) - (of_int n :: rat)\<bar> < 1"
    using round_half_even_error [of y] assms by linarith
  then have "\<bar>of_int (round_half_even y - n) :: rat\<bar> < 1" by simp
  then have "\<bar>round_half_even y - n\<bar> < 1"
    by (metis of_int_abs of_int_less_1_iff)
  then show ?thesis by linarith
qed

lemma round_half_even_minus: "round_half_even (- y) = - round_half_even y"
proof (cases "y = of_int \<lfloor>y\<rfloor>")
  case True
  then obtain n where "y = of_int n" ..
  then show ?thesis by (simp flip: of_int_minus)
next
  case False
  then have c: "\<lceil>y\<rceil> = \<lfloor>y\<rfloor> + 1"
    by (metis ceiling_altdef)
  have f: "\<lfloor>- y\<rfloor> = - \<lfloor>y\<rfloor> - 1"
    using c by (simp add: ceiling_def)
  show ?thesis
    unfolding round_half_even_def Let_def f
    by (auto simp: field_simps)
qed

subsection \<open>The binary exponent\<close>

lemma log2_floor_bounds:
  assumes "0 < x"
  shows "power_int 2 (log2_floor x) \<le> x" and "x < power_int 2 (log2_floor x + 1)"
proof -
  have "power_int 2 (log2_floor x) \<le> x \<and> x < power_int 2 (log2_floor x + 1)"
  proof (cases "1 \<le> x")
    case True
    define n where "n = \<lfloor>x\<rfloor>"
    have n: "0 < n" "of_int n \<le> x" "x < of_int n + 1"
      using True by (simp_all add: n_def) linarith+
    define b where "b = bitlen n"
    from bitlen_bounds [OF n(1)] have bb: "2 ^ nat (b - 1) \<le> n" "n < 2 ^ nat b"
      by (simp_all add: b_def)
    have b1: "1 \<le> b"
      using n(1) by (simp add: b_def bitlen_alt_def)
    have e: "log2_floor x = b - 1"
      using True by (simp add: log2_floor_def b_def n_def)
    have p1: "power_int (2::rat) (b - 1) = 2 ^ nat (b - 1)" and p2: "power_int (2::rat) b = 2 ^ nat b"
      using b1 by (simp_all add: power_int_def)
    have "(2::rat) ^ nat (b - 1) \<le> of_int n"
      using bb(1) by (metis of_int_le_iff of_int_numeral of_int_power)
    with n(2) have lo: "power_int 2 (b - 1) \<le> x"
      unfolding p1 by linarith
    have "n + 1 \<le> 2 ^ nat b" using bb(2) by simp
    then have "(of_int (n + 1) :: rat) \<le> 2 ^ nat b"
      by (metis of_int_le_iff of_int_numeral of_int_power)
    then have "of_int n + 1 \<le> (2::rat) ^ nat b" by simp
    with n(3) have hi: "x < power_int 2 b"
      unfolding p2 by linarith
    from lo hi e show ?thesis by simp
  next
    case False
    define y where "y = 1 / x"
    have y: "1 < y" using False assms by (simp add: y_def)
    define m where "m = \<lceil>y\<rceil> - 1"
    have m: "0 < m" "of_int m < y" "y \<le> of_int m + 1"
      using y by (simp_all add: m_def less_ceiling_iff) linarith+
    define b where "b = bitlen m"
    from bitlen_bounds [OF m(1)] have bb: "2 ^ nat (b - 1) \<le> m" "m < 2 ^ nat b"
      by (simp_all add: b_def)
    have b1: "1 \<le> b"
      using m(1) by (simp add: b_def bitlen_alt_def)
    have e: "log2_floor x = - b"
      using False by (simp add: log2_floor_def b_def m_def y_def)
    have "(2::rat) ^ nat (b - 1) \<le> of_int m"
      using bb(1) by (metis of_int_le_iff of_int_numeral of_int_power)
    then have lo: "2 ^ nat (b - 1) < y" using m(2) by linarith
    have "m + 1 \<le> 2 ^ nat b" using bb(2) by simp
    then have "(of_int (m + 1) :: rat) \<le> 2 ^ nat b"
      by (metis of_int_le_iff of_int_numeral of_int_power)
    then have "of_int m + 1 \<le> (2::rat) ^ nat b" by simp
    with m(3) have hi: "y \<le> 2 ^ nat b" by linarith
    have x: "x = 1 / y" by (simp add: y_def)
    have "1 / (2::rat) ^ nat b \<le> x"
      unfolding x using hi y by (simp add: frac_le)
    then have lo': "power_int 2 (- b) \<le> x"
      using b1 by (simp add: power_int_def field_simps)
    have "x < 1 / (2::rat) ^ nat (b - 1)"
      unfolding x using lo by (simp add: frac_less2)
    moreover have "power_int (2::rat) (- b + 1) = 1 / 2 ^ nat (b - 1)"
    proof (cases "b = 1")
      case True
      then show ?thesis by simp
    next
      case False
      with b1 have "nat (- (- b + 1)) = nat (b - 1)" "\<not> 0 \<le> - b + 1" by simp_all
      then show ?thesis by (simp add: power_int_def field_simps)
    qed
    ultimately have hi': "x < power_int 2 (- b + 1)" by simp
    from lo' hi' e show ?thesis by simp
  qed
  then show "power_int 2 (log2_floor x) \<le> x" and "x < power_int 2 (log2_floor x + 1)"
    by simp_all
qed

lemma two_powi_less_iff: "power_int (2::rat) a < power_int 2 b \<longleftrightarrow> a < b"
proof
  assume l: "power_int (2::rat) a < power_int 2 b"
  show "a < b"
  proof (rule ccontr)
    assume "\<not> a < b"
    then have "b \<le> a" by simp
    then have "power_int (2::rat) b \<le> power_int 2 a"
      by (rule power_int_increasing) simp
    with l show False by simp
  qed
next
  assume "a < b"
  then show "power_int (2::rat) a < power_int 2 b"
    by (rule power_int_strict_increasing) simp
qed

lemma two_powi_le_iff: "power_int (2::rat) a \<le> power_int 2 b \<longleftrightarrow> a \<le> b"
  using two_powi_less_iff [of b a] by (simp add: not_less [symmetric])

lemma log2_floor_unique:
  assumes "0 < x" "power_int 2 e \<le> x" "x < power_int 2 (e + 1)"
  shows "log2_floor x = e"
proof -
  from log2_floor_bounds [OF assms(1)] assms
  have "power_int (2::rat) (log2_floor x) < power_int 2 (e + 1)"
    and "power_int (2::rat) e < power_int 2 (log2_floor x + 1)"
    by linarith+
  then have "log2_floor x < e + 1" "e < log2_floor x + 1"
    by (simp_all add: two_powi_less_iff)
  then show ?thesis by simp
qed

subsection \<open>Rounding to binary64\<close>

lemma two_powi_pos [simp]: "0 < power_int (2::rat) q"
  by simp

lemma fl_0 [simp]: "fl 0 = 0"
  by (simp add: fl_def)

lemma ulp_exp_minus [simp]: "ulp_exp (- x) = ulp_exp x"
  by (simp add: ulp_exp_def)

lemma fl_minus: "fl (- x) = - fl x"
  by (simp add: fl_def round_half_even_minus)

lemma ulp_exp_eq:
  assumes "x \<noteq> 0" "power_int 2 e \<le> \<bar>x\<bar>" "\<bar>x\<bar> < power_int 2 (e + 1)"
  shows "ulp_exp x = max (e - 52) (- 1074)"
  using log2_floor_unique [of "\<bar>x\<bar>" e] assms by (simp add: ulp_exp_def)

lemma ulp_exp_le:
  assumes "x \<noteq> 0" "\<bar>x\<bar> < power_int 2 b" "- 1021 \<le> b"
  shows "ulp_exp x \<le> b - 53"
proof -
  from assms(1) have "0 < \<bar>x\<bar>" by simp
  from log2_floor_bounds(1) [OF this] assms(2)
  have "power_int (2::rat) (log2_floor \<bar>x\<bar>) < power_int 2 b" by linarith
  then have "log2_floor \<bar>x\<bar> < b" by (simp add: two_powi_less_iff)
  with assms(3) show ?thesis by (simp add: ulp_exp_def)
qed

lemma ulp_exp_normal:
  assumes "power_int 2 (- 1022) \<le> \<bar>x\<bar>"
  shows "ulp_exp x = log2_floor \<bar>x\<bar> - 52" and "power_int 2 (ulp_exp x + 52) \<le> \<bar>x\<bar>"
proof -
  have "0 < power_int (2::rat) (- 1022)" by (rule two_powi_pos)
  with assms have pos: "0 < \<bar>x\<bar>" by linarith
  from log2_floor_bounds [OF pos] assms
  have "power_int (2::rat) (- 1022) < power_int 2 (log2_floor \<bar>x\<bar> + 1)" by linarith
  then have "- 1022 < log2_floor \<bar>x\<bar> + 1" by (simp only: two_powi_less_iff)
  then show e: "ulp_exp x = log2_floor \<bar>x\<bar> - 52" by (simp add: ulp_exp_def)
  from log2_floor_bounds(1) [OF pos] show "power_int 2 (ulp_exp x + 52) \<le> \<bar>x\<bar>"
    by (simp add: e)
qed

text \<open>The rounding error is at most half a unit in the last place.\<close>

lemma fl_error: "\<bar>fl x - x\<bar> \<le> power_int 2 (ulp_exp x) / 2"
proof (cases "x = 0")
  case True
  then show ?thesis by simp
next
  case False
  define u :: rat where "u = power_int 2 (ulp_exp x)"
  have u: "0 < u" by (simp add: u_def)
  have "fl x - x = (of_int (round_half_even (x / u)) - x / u) * u"
    using False u by (simp add: fl_def u_def field_simps)
  then have "\<bar>fl x - x\<bar> = \<bar>of_int (round_half_even (x / u)) - x / u\<bar> * u"
    using u by (simp add: abs_mult)
  also have "\<dots> \<le> 1 / 2 * u"
    using round_half_even_error [of "x / u"] u by (intro mult_right_mono) simp_all
  finally show ?thesis by (simp add: u_def)
qed

lemma fl_error_bound:
  assumes "\<bar>x\<bar> < power_int 2 b" "- 1021 \<le> b"
  shows "\<bar>fl x - x\<bar> \<le> power_int 2 (b - 54)"
proof (cases "x = 0")
  case True
  then show ?thesis by simp
next
  case False
  from ulp_exp_le [OF False assms] have "power_int (2::rat) (ulp_exp x) \<le> power_int 2 (b - 53)"
    by (simp add: two_powi_le_iff)
  moreover have "power_int (2::rat) (b - 53) = power_int 2 (b - 54) * 2"
    using power_int_add [of "2::rat" "b - 54" 1] by simp
  ultimately show ?thesis using fl_error [of x] by linarith
qed


text \<open>Rounding does not cross a multiple of the unit in the last place.\<close>

lemma fl_ge_grid:
  assumes "of_int j * power_int 2 (ulp_exp x) \<le> x"
  shows "of_int j * power_int 2 (ulp_exp x) \<le> fl x"
proof (cases "x = 0")
  case True
  with assms show ?thesis by simp
next
  case False
  have "of_int j \<le> x / power_int 2 (ulp_exp x)"
    using assms by (simp add: field_simps)
  then have "j \<le> round_half_even (x / power_int 2 (ulp_exp x))"
    by (rule round_half_even_ge)
  then have "(of_int j :: rat) \<le> of_int (round_half_even (x / power_int 2 (ulp_exp x)))"
    by simp
  then show ?thesis
    using False by (simp add: fl_def)
qed

lemma fl_le_grid:
  assumes "x \<le> of_int j * power_int 2 (ulp_exp x)"
  shows "fl x \<le> of_int j * power_int 2 (ulp_exp x)"
proof (cases "x = 0")
  case True
  with assms show ?thesis by simp
next
  case False
  have "x / power_int 2 (ulp_exp x) \<le> of_int j"
    using assms by (simp add: field_simps)
  then have "round_half_even (x / power_int 2 (ulp_exp x)) \<le> j"
    by (rule round_half_even_le)
  then have "(of_int (round_half_even (x / power_int 2 (ulp_exp x))) :: rat) \<le> of_int j"
    by simp
  then show ?thesis
    using False by (simp add: fl_def)
qed

lemma fl_near_grid:
  assumes "x \<noteq> 0" "\<bar>x - of_int j * power_int 2 (ulp_exp x)\<bar> < power_int 2 (ulp_exp x) / 2"
  shows "fl x = of_int j * power_int 2 (ulp_exp x)"
proof -
  define u :: rat where "u = power_int 2 (ulp_exp x)"
  have u: "0 < u" by (simp add: u_def)
  have "x / u - of_int j = (x - of_int j * u) / u"
    using u by (simp add: field_simps)
  then have "\<bar>x / u - of_int j\<bar> = \<bar>x - of_int j * u\<bar> / u"
    using u by simp
  also have "\<dots> < 1 / 2"
    using assms(2) u by (simp add: u_def field_simps)
  finally have "round_half_even (x / u) = j" by (rule round_half_even_near)
  then show ?thesis using assms(1) by (simp add: fl_def u_def)
qed

text \<open>A multiple of a power of two, as a multiple of a smaller power of two.\<close>

lemma grid_refine:
  assumes "q \<le> b"
  shows "of_int k * power_int (2::rat) b = of_int (k * 2 ^ nat (b - q)) * power_int 2 q"
proof -
  have "power_int (2::rat) b = power_int 2 (b - q) * power_int 2 q"
    using power_int_add [of "2::rat" "b - q" q] by simp
  also have "power_int (2::rat) (b - q) = 2 ^ nat (b - q)"
    using assms by (simp add: power_int_def)
  finally show ?thesis by simp
qed

lemma fl_ge_two_powi:
  assumes "of_int k * power_int 2 b \<le> x" "ulp_exp x \<le> b"
  shows "of_int k * power_int 2 b \<le> fl x"
  using fl_ge_grid [of "k * 2 ^ nat (b - ulp_exp x)" x] assms
  by (simp only: grid_refine [OF assms(2), symmetric])

lemma fl_le_two_powi:
  assumes "x \<le> of_int k * power_int 2 b" "ulp_exp x \<le> b"
  shows "fl x \<le> of_int k * power_int 2 b"
  using fl_le_grid [of x "k * 2 ^ nat (b - ulp_exp x)"] assms
  by (simp only: grid_refine [OF assms(2), symmetric])

subsection \<open>Integers and the range of binary64\<close>

lemma ulp_exp_small:
  assumes "x \<noteq> 0" "\<bar>x\<bar> < 2 ^ 53"
  shows "ulp_exp x \<le> 0"
  using ulp_exp_le [of x 53] assms by simp

lemma fl_of_int:
  assumes "\<bar>n\<bar> < 2 ^ 53"
  shows "fl (of_int n) = of_int n"
proof (cases "n = 0")
  case True
  then show ?thesis by simp
next
  case False
  define x :: rat where "x = of_int n"
  have x0: "x \<noteq> 0" using False by (simp add: x_def)
  have "\<bar>x\<bar> = of_int \<bar>n\<bar>" by (simp add: x_def)
  also have "\<dots> < of_int (2 ^ 53)" using assms by (simp only: of_int_less_iff)
  finally have "\<bar>x\<bar> < 2 ^ 53" by simp
  from ulp_exp_small [OF x0 this] have q: "ulp_exp x \<le> 0" .
  have g: "x = of_int (n * 2 ^ nat (0 - ulp_exp x)) * power_int 2 (ulp_exp x)"
    using grid_refine [OF q, of n] by (simp add: x_def)
  define j where "j = n * 2 ^ nat (0 - ulp_exp x)"
  from g have g': "x = of_int j * power_int 2 (ulp_exp x)" by (simp only: j_def)
  then have "x - of_int j * power_int 2 (ulp_exp x) = 0" by simp
  then have "\<bar>x - of_int j * power_int 2 (ulp_exp x)\<bar> < power_int 2 (ulp_exp x) / 2"
    by (simp only: abs_zero) simp
  from fl_near_grid [OF x0 this] g' show ?thesis by (simp add: x_def)
qed

lemma fl_ge_int:
  assumes "\<bar>x\<bar> < 2 ^ 53" "of_int k \<le> x"
  shows "of_int k \<le> fl x"
proof (cases "x = 0")
  case True
  with assms show ?thesis by simp
next
  case False
  from fl_ge_two_powi [of k 0 x] assms ulp_exp_small [OF False assms(1)]
  show ?thesis by simp
qed


lemma fl_range:
  assumes "\<bar>x\<bar> \<le> 2 ^ 1023"
  shows "\<bar>fl x\<bar> \<le> 2 ^ 1023"
proof (cases "x = 0")
  case True
  then show ?thesis by simp
next
  case False
  have "\<bar>x\<bar> < power_int 2 1024" using assms by simp
  from ulp_exp_le [OF False this] have q: "ulp_exp x \<le> 1023" by simp
  have "x \<le> of_int 1 * power_int 2 1023" "of_int (- 1) * power_int 2 1023 \<le> x"
    using assms by simp_all
  from fl_le_two_powi [OF this(1) q] fl_ge_two_powi [OF this(2) q]
  show ?thesis by simp
qed

lemma to_double_Finite:
  assumes "\<bar>x\<bar> \<le> 2 ^ 1023"
  shows "to_double x = Finite (fl x)"
proof -
  have "(2::rat) ^ 1023 < 2 ^ 1024" by simp
  with fl_range [OF assms] have "fl x < 2 ^ 1024" "- (2 ^ 1024) < fl x" by linarith+
  then show ?thesis by (simp add: to_double_def Let_def)
qed

lemma float_of_int_exact:
  assumes "\<bar>n\<bar> < 2 ^ 53"
  shows "float_of_int n = Inr (of_int n)"
proof -
  have "\<bar>of_int n :: rat\<bar> = of_int \<bar>n\<bar>" by simp
  also have "\<dots> < of_int (2 ^ 53)" using assms by (simp only: of_int_less_iff)
  also have "\<dots> \<le> 2 ^ 1023" by simp
  finally have "\<bar>of_int n :: rat\<bar> \<le> 2 ^ 1023" by simp
  from to_double_Finite [OF this] fl_of_int [OF assms] show ?thesis
    by (simp add: float_of_int_def)
qed

lemma float_mul_Finite: "\<bar>x * y\<bar> \<le> 2 ^ 1023 \<Longrightarrow> float_mul x y = Finite (fl (x * y))"
  by (simp add: float_mul_def to_double_Finite)


lemma trunc_eq_floor: "0 \<le> x \<Longrightarrow> trunc x = \<lfloor>x\<rfloor>"
  by (simp add: trunc_def)

lemma trunc_minus: "trunc (- x) = - trunc x"
  by (auto simp: trunc_def ceiling_def)

lemma trunc_of_int [simp]: "trunc (of_int n) = n"
  by (simp add: trunc_def)

lemma ulp_exp_upper:
  assumes "power_int 2 (- 1022) \<le> \<bar>x\<bar>"
  shows "\<bar>x\<bar> < power_int 2 (ulp_exp x) * 2 ^ 53"
proof -
  have "0 < power_int (2::rat) (- 1022)" by (rule two_powi_pos)
  with assms have pos: "0 < \<bar>x\<bar>" by linarith
  from ulp_exp_normal(1) [OF assms] have e: "log2_floor \<bar>x\<bar> + 1 = ulp_exp x + 53" by simp
  from log2_floor_bounds(2) [OF pos] have "\<bar>x\<bar> < power_int 2 (ulp_exp x + 53)"
    unfolding e .
  also have "power_int (2::rat) (ulp_exp x + 53) = power_int 2 (ulp_exp x) * 2 ^ 53"
    using power_int_add [of "2::rat" "ulp_exp x" 53] by simp
  finally show ?thesis .
qed

text \<open>A float is determined by a multiple of the unit in the last place next to it.\<close>

lemma fl_eqI:
  assumes "power_int 2 e \<le> \<bar>x\<bar>" "\<bar>x\<bar> < power_int 2 (e + 1)" "- 1022 \<le> e"
    and "\<bar>x - of_int j * power_int 2 (e - 52)\<bar> < power_int 2 (e - 52) / 2"
  shows "fl x = of_int j * power_int 2 (e - 52)"
proof -
  have "0 < power_int (2::rat) e" by (rule two_powi_pos)
  with assms(1) have "0 < \<bar>x\<bar>" by linarith
  then have x0: "x \<noteq> 0" by simp
  from ulp_exp_eq [OF x0 assms(1,2)] assms(3) have q: "ulp_exp x = e - 52" by simp
  from fl_near_grid [OF x0, of j] assms(4) show ?thesis by (simp add: q)
qed

lemma fl_12_10: "fl (12 / 10) = 5404319552844595 / 4503599627370496"
proof -
  have "fl (12 / 10) = of_int 5404319552844595 * power_int 2 (0 - 52)"
    by (rule fl_eqI) simp_all
  then show ?thesis by simp
qed

lemma fl_6_5: "fl (6 / 5) = 5404319552844595 / 4503599627370496"
  using fl_12_10 by simp

subsection \<open>The expected number of tasks\<close>






subsection \<open>Scaling a duration by 1.2\<close>

lemma scale_floor:
  assumes "0 \<le> d" "d < 2 ^ 50"
  shows "\<lfloor>fl (of_int d * (5404319552844595 / 4503599627370496))\<rfloor> = (6 * d) div 5"
proof (cases "d = 0")
  case True
  then show ?thesis by simp
next
  case False
  with assms have dpos: "0 < d" by simp
  define X :: rat where "X = of_int d * (5404319552844595 / 4503599627370496)"
  define F where "F = (6 * d) div 5"
  define r where "r = (6 * d) mod 5"
  define \<delta> :: rat where "\<delta> = of_int d / (5 * 2 ^ 52)"
  have dec: "6 * d = 5 * F + r" and r: "0 \<le> r" "r < 5"
    by (simp_all add: F_def r_def)
  have "(of_int (6 * d) :: rat) = of_int (5 * F + r)" by (simp only: dec)
  then have dec': "6 * (of_int d :: rat) = 5 * of_int F + of_int r" by simp
  have d1: "(1::rat) \<le> of_int d" using dpos by simp
  have "(of_int d :: rat) < of_int (2 ^ 50)" using assms(2) by (simp only: of_int_less_iff)
  then have d2: "(of_int d :: rat) < 2 ^ 50" by simp
  have X: "X = of_int F + of_int r / 5 - \<delta>"
    using dec' by (simp add: X_def \<delta>_def field_simps)
  have \<delta>: "0 < \<delta>" "\<delta> < 1 / 20"
    using d1 d2 by (simp_all add: \<delta>_def field_simps)
  have Xd: "X = of_int d * (5404319552844595 / 4503599627370496)" by (simp add: X_def)
  have X1: "1 \<le> X" using d1 by (simp add: X_def field_simps)
  have X2: "X < 2 ^ 51" using d2 by (simp add: X_def field_simps)
  have absX: "\<bar>X\<bar> = X" using X1 by simp
  have F0: "0 \<le> F" using dpos by (simp add: F_def)
  have "fl X \<in> {of_int F ..< of_int F + 1}"
  proof (cases "r = 0")
    case True
    have small: "\<bar>X\<bar> < 2 ^ 53" using X2 absX by simp
    have X0: "X \<noteq> 0" using X1 by auto
    from ulp_exp_small [OF X0 small] have q: "ulp_exp X \<le> 0" .
    define j where "j = F * 2 ^ nat (0 - ulp_exp X)"
    from grid_refine [OF q, of F] have g: "(of_int F :: rat) = of_int j * power_int 2 (ulp_exp X)"
      by (simp add: j_def)
    have "power_int 2 (- 1022) \<le> \<bar>X\<bar>"
    proof -
      have "power_int (2::rat) (- 1022) \<le> power_int 2 0"
        by (simp add: two_powi_le_iff)
      with X1 absX show ?thesis by simp
    qed
    from ulp_exp_upper [OF this] absX have up: "X < power_int 2 (ulp_exp X) * 2 ^ 53" by simp
    have "\<delta> * 2 ^ 54 < X"
      using d1 by (simp add: \<delta>_def X_def field_simps)
    with up have "\<delta> < power_int 2 (ulp_exp X) / 2" by (simp add: field_simps)
    moreover have "X - of_int F = - \<delta>"
      using X True by simp
    then have "X - of_int j * power_int 2 (ulp_exp X) = - \<delta>"
      by (simp only: g)
    ultimately have "\<bar>X - of_int j * power_int 2 (ulp_exp X)\<bar> < power_int 2 (ulp_exp X) / 2"
      using \<delta>(1) by simp
    from fl_near_grid [OF X0 this] g have "fl X = of_int F" by simp
    then show ?thesis by simp
  next
    case False
    with r have r1: "1 \<le> r" "r \<le> 4" by simp_all
    then have r1': "(1::rat) \<le> of_int r" "(of_int r :: rat) \<le> 4" by simp_all
    have lo: "of_int F \<le> X" using X r1' \<delta> by (simp add: field_simps)
    have hi: "X \<le> of_int F + 4 / 5" using X r1' \<delta> by (simp add: field_simps)
    have small: "\<bar>X\<bar> < 2 ^ 53" using X2 absX by simp
    from fl_ge_int [OF small lo] have a: "of_int F \<le> fl X" .
    have "\<bar>X\<bar> < power_int 2 51" using X2 absX by simp
    from fl_error_bound [OF this] have "\<bar>fl X - X\<bar> \<le> 1 / 8" by simp
    with hi have "fl X < of_int F + 1" by linarith
    with a show ?thesis by simp
  qed
  then have "\<lfloor>fl X\<rfloor> = F" by (simp add: floor_unique)
  then show ?thesis by (simp add: X_def F_def)
qed

lemma scale_nonneg:
  assumes "0 \<le> d" "d < 2 ^ 50"
  shows "scale_duration d = Inr (trunc (of_int d * (12 / 10)))"
proof -
  define c :: rat where "c = 5404319552844595 / 4503599627370496"
  have "\<bar>d\<bar> < 2 ^ 53" using assms by simp
  from float_of_int_exact [OF this] have f: "float_of_int d = Inr (of_int d)" .
  have "(of_int d :: rat) < of_int (2 ^ 50)" using assms(2) by (simp only: of_int_less_iff)
  then have d2: "(of_int d :: rat) < 2 ^ 50" by simp
  have d0: "(0::rat) \<le> of_int d" using assms(1) by simp
  have Xpos: "0 \<le> of_int d * c" using d0 by (simp add: c_def)
  have "of_int d * c \<le> 2 ^ 50 * 2"
    using d0 d2 by (intro mult_mono) (simp_all add: c_def)
  also have "\<dots> \<le> (2::rat) ^ 1023" by simp
  finally have "\<bar>of_int d * c\<bar> \<le> 2 ^ 1023" using Xpos by simp
  from float_mul_Finite [OF this] have m: "float_mul (of_int d) c = Finite (fl (of_int d * c))" .
  have "0 \<le> fl (of_int d * c)"
    using fl_ge_int [of "of_int d * c" 0] Xpos d0 d2 by (simp add: c_def field_simps)
  then have t: "trunc (fl (of_int d * c)) = (6 * d) div 5"
    using scale_floor [OF assms] by (simp add: trunc_def c_def)
  have "(of_int d :: rat) * (12 / 10) = of_int (6 * d) / of_int 5" by simp
  then have "\<lfloor>(of_int d :: rat) * (12 / 10)\<rfloor> = (6 * d) div 5"
    by (simp only: floor_divide_of_int_eq)
  then have "trunc (of_int d * (12 / 10)) = (6 * d) div 5"
    using d0 by (simp add: trunc_def)
  with f m t show ?thesis
    by (simp add: scale_duration_def fl_12_10 fl_6_5 c_def)
qed

lemma scale_duration_exact:
  assumes "\<bar>d\<bar> < 2 ^ 50"
  shows "scale_duration d = Inr (trunc (of_int d * (12 / 10)))"
proof (cases "0 \<le> d")
  case True
  with assms show ?thesis by (simp add: scale_nonneg)
next
  case False
  define d' where "d' = - d"
  have d': "0 \<le> d'" "d' < 2 ^ 50" "d = - d'" using False assms by (simp_all add: d'_def)
  define c :: rat where "c = 5404319552844595 / 4503599627370496"
  have "\<bar>d\<bar> < 2 ^ 53" using assms by simp
  from float_of_int_exact [OF this] have f: "float_of_int d = Inr (of_int d)" .
  from scale_nonneg [OF d'(1,2)] have pos: "scale_duration d' = Inr (trunc (of_int d' * (12 / 10)))" .
  have "\<bar>d'\<bar> < 2 ^ 53" using d' by simp
  from float_of_int_exact [OF this] have f': "float_of_int d' = Inr (of_int d')" .
  have "(of_int d' :: rat) < of_int (2 ^ 50)" using d'(2) by (simp only: of_int_less_iff)
  then have d2: "(of_int d' :: rat) < 2 ^ 50" by simp
  have d0: "(0::rat) \<le> of_int d'" using d'(1) by simp
  have Xpos: "0 \<le> of_int d' * c" using d0 by (simp add: c_def)
  have "of_int d' * c \<le> 2 ^ 50 * 2"
    using d0 d2 by (intro mult_mono) (simp_all add: c_def)
  also have "\<dots> \<le> (2::rat) ^ 1023" by simp
  finally have b: "\<bar>of_int d' * c\<bar> \<le> 2 ^ 1023" using Xpos by simp
  from float_mul_Finite [OF b] have m': "float_mul (of_int d') c = Finite (fl (of_int d' * c))" .
  have "\<bar>of_int d * c\<bar> \<le> 2 ^ 1023" using b by (simp add: d'(3))
  from float_mul_Finite [OF this] have m: "float_mul (of_int d) c = Finite (fl (of_int d * c))" .
  have "fl (of_int d * c) = - fl (of_int d' * c)"
    using fl_minus [of "of_int d' * c"] by (simp add: d'(3))
  then have "trunc (fl (of_int d * c)) = - trunc (fl (of_int d' * c))"
    by (simp add: trunc_minus)
  moreover from pos f' m' have "trunc (fl (of_int d' * c)) = trunc (of_int d' * (12 / 10))"
    by (simp add: scale_duration_def fl_12_10 fl_6_5 c_def)
  moreover have "trunc (of_int d * (12 / 10)) = - trunc (of_int d' * (12 / 10))"
    using trunc_minus [of "of_int d' * (12 / 10)"] by (simp add: d'(3))
  ultimately show ?thesis using f m
    by (simp add: scale_duration_def fl_12_10 fl_6_5 c_def)
qed

subsection \<open>The streak\<close>

lemma raise_longest_le:
  "get_or 0 (current_streak_days (raise_longest stats))
     \<le> get_or 0 (longest_streak_days (raise_longest stats))"
  by (simp add: raise_longest_def)

lemma raise_longest_rate [simp]:
  "completion_rate_percent (raise_longest stats) = completion_rate_percent stats"
  by (simp add: raise_longest_def)

lemma streak_step_rate:
  assumes "streak_step stats entries today last_activity = Inr stats1"
  shows "completion_rate_percent stats1 = completion_rate_percent stats"
proof (cases "last_activity = today")
  case True
  show ?thesis
  proof (cases "activities_on (today - 1) entries")
    case (Inl e)
    with assms True show ?thesis by (simp add: streak_step_def)
  next
    case (Inr ya)
    with assms True show ?thesis
      by (cases "ya \<noteq> [] \<or> get_or 0 (current_streak_days stats) = 0")
         (auto simp add: streak_step_def)
  qed
next
  case False
  with assms show ?thesis
    by (cases "1 < today - last_activity") (auto simp add: streak_step_def)
qed

lemma update_streak_cases:
  assumes "update_streak prog now = Inr prog'" and "get_or [] (daily_log prog) \<noteq> []"
  obtains last_dt stats1 where
    "fromisoformat (date (last (get_or [] (daily_log prog)))) = Inr last_dt"
    "streak_step (get_or empty_stats (overall_stats prog)) (get_or [] (daily_log prog))
       (dt_date now) (dt_date last_dt) = Inr stats1"
    "prog' = prog\<lparr>overall_stats := Some (raise_longest stats1)\<rparr>"
proof (cases "fromisoformat (date (last (get_or [] (daily_log prog))))")
  case (Inl e)
  with assms show ?thesis by (simp add: update_streak_def Let_def)
next
  case (Inr last_dt)
  show ?thesis
  proof (cases "streak_step (get_or empty_stats (overall_stats prog))
       (get_or [] (daily_log prog)) (dt_date now) (dt_date last_dt)")
    case (Inl e)
    with assms Inr show ?thesis by (simp add: update_streak_def Let_def)
  next
    case step: (Inr stats1)
    with assms Inr have "prog' = prog\<lparr>overall_stats := Some (raise_longest stats1)\<rparr>"
      by (simp add: update_streak_def Let_def)
    with Inr step that show ?thesis by blast
  qed
qed

lemma update_streak_le_longest:
  assumes "update_streak prog now = Inr prog'" and "get_or [] (daily_log prog) \<noteq> []"
  shows "current_streak prog' \<le> longest_streak prog'"
proof -
  from update_streak_cases [OF assms] obtain stats1
    where "prog' = prog\<lparr>overall_stats := Some (raise_longest stats1)\<rparr>" by blast
  then show ?thesis
    by (simp add: current_streak_def longest_streak_def raise_longest_le)
qed

lemma update_streak_rate:
  assumes "update_streak prog now = Inr prog'"
  shows "stored_rate prog' = stored_rate prog"
proof (cases "get_or [] (daily_log prog) = []")
  case True
  with assms show ?thesis by (simp add: update_streak_def Let_def)
next
  case False
  from update_streak_cases [OF assms False] obtain last_dt :: datetime and stats1 where
    step: "streak_step (get_or empty_stats (overall_stats prog)) (get_or [] (daily_log prog))
             (dt_date now) (dt_date last_dt) = Inr stats1" and
    res: "prog' = prog\<lparr>overall_stats := Some (raise_longest stats1)\<rparr>"
    by blast
  from streak_step_rate [OF step] show ?thesis
    by (cases "overall_stats prog") (simp_all add: res stored_rate_def empty_stats_def)
qed

lemma complete_task_cases:
  assumes "complete_task sched prog now tid hours rating = Inr prog'"
  obtains stats' prog2 where
    "update_completion_rate sched (append_log prog (new_entry now tid hours rating)) now
       (count_completion (get_or empty_stats (overall_stats prog)) hours) = Inr stats'"
    "update_streak (shared_stats (append_log prog (new_entry now tid hours rating)) stats') now
       = Inr prog2"
    "prog' = prog2\<lparr>last_updated := Some (Iso now)\<rparr>"
proof -
  let ?prog1 = "append_log prog (new_entry now tid hours rating)"
  let ?stats = "count_completion (get_or empty_stats (overall_stats prog)) hours"
  have s: "overall_stats ?prog1 = overall_stats prog"
    by (simp add: append_log_def)
  show ?thesis
  proof (cases "update_completion_rate sched ?prog1 now ?stats")
    case (Inl e)
    with assms s show ?thesis by (simp add: complete_task_def Let_def)
  next
    case rate: (Inr stats')
    show ?thesis
    proof (cases "update_streak (shared_stats ?prog1 stats') now")
      case (Inl e)
      with assms s rate show ?thesis by (simp add: complete_task_def Let_def)
    next
      case (Inr prog2)
      with assms s rate have "prog' = prog2\<lparr>last_updated := Some (Iso now)\<rparr>"
        by (simp add: complete_task_def Let_def)
      with rate Inr that show ?thesis by blast
    qed
  qed
qed

lemma shared_stats_log [simp]: "daily_log (shared_stats prog stats) = daily_log prog"
  by (cases "overall_stats prog") (simp_all add: shared_stats_def)

lemma append_log_nonempty [simp]: "get_or [] (daily_log (append_log prog entry)) \<noteq> []"
  by (simp add: append_log_def)

lemma count_completion_rate [simp]:
  "completion_rate_percent (count_completion stats hours) = completion_rate_percent stats"
  by (simp add: count_completion_def Let_def)

lemma update_completion_rate_no_tasks:
  "total_scheduled sched = 0 \<Longrightarrow> update_completion_rate sched prog now stats = Inr stats"
  by (simp add: update_completion_rate_def)


lemma complete_task_no_tasks_rate:
  assumes "total_scheduled sched = 0"
    and "complete_task sched prog now tid hours rating = Inr prog'"
  shows "stored_rate prog' = stored_rate prog"
proof -
  from complete_task_cases [OF assms(2)] obtain stats' prog2 where
    rate: "update_completion_rate sched (append_log prog (new_entry now tid hours rating)) now
       (count_completion (get_or empty_stats (overall_stats prog)) hours) = Inr stats'" and
    streak: "update_streak (shared_stats (append_log prog (new_entry now tid hours rating)) stats')
       now = Inr prog2" and
    res: "prog' = prog2\<lparr>last_updated := Some (Iso now)\<rparr>"
    by blast
  from rate assms(1) have "stats' = count_completion (get_or empty_stats (overall_stats prog)) hours"
    by (simp add: update_completion_rate_no_tasks)
  then have "stored_rate (shared_stats (append_log prog (new_entry now tid hours rating)) stats')
      = stored_rate prog"
    by (cases "overall_stats prog") (simp_all add: shared_stats_def append_log_def stored_rate_def)
  with update_streak_rate [OF streak] show ?thesis
    by (simp add: res stored_rate_def)
qed

subsection \<open>A store without statistics\<close>

text \<open>
  When the store has no \<^verbatim>\<open>overall_stats\<close>, the count of completed tasks, the hours and the
  rate that \<^verbatim>\<open>complete_task\<close> computes stay in a dictionary of its own: the store it writes
  holds the streak counters only.
\<close>

lemma streak_step_completed:
  assumes "streak_step stats entries today last_activity = Inr stats1"
  shows "total_tasks_completed stats1 = total_tasks_completed stats"
proof (cases "last_activity = today")
  case True
  show ?thesis
  proof (cases "activities_on (today - 1) entries")
    case (Inl e)
    with assms True show ?thesis by (simp add: streak_step_def)
  next
    case (Inr ya)
    with assms True show ?thesis
      by (cases "ya \<noteq> [] \<or> get_or 0 (current_streak_days stats) = 0")
         (auto simp add: streak_step_def)
  qed
next
  case False
  with assms show ?thesis
    by (cases "1 < today - last_activity") (auto simp add: streak_step_def)
qed

lemma complete_task_without_stats:
  assumes "overall_stats prog = None"
    and "complete_task sched prog now tid hours rating = Inr prog'"
  shows "total_tasks_completed (get_or empty_stats (overall_stats prog')) = None"
    and "stored_rate prog' = None"
proof -
  let ?prog1 = "append_log prog (new_entry now tid hours rating)"
  from complete_task_cases [OF assms(2)] obtain stats' prog2 where
    streak: "update_streak (shared_stats ?prog1 stats') now = Inr prog2" and
    res: "prog' = prog2\<lparr>last_updated := Some (Iso now)\<rparr>"
    by blast
  from assms(1) have s: "shared_stats ?prog1 stats' = ?prog1"
    by (simp add: shared_stats_def append_log_def)
  have n: "overall_stats ?prog1 = None" using assms(1) by (simp add: append_log_def)
  from streak have streak': "update_streak ?prog1 now = Inr prog2" by (simp only: s)
  have "get_or [] (daily_log ?prog1) \<noteq> []" by simp
  from update_streak_cases [OF streak' this] obtain last_dt :: datetime and stats1 where
    step: "streak_step (get_or empty_stats (overall_stats ?prog1)) (get_or [] (daily_log ?prog1))
             (dt_date now) (dt_date last_dt) = Inr stats1" and
    p2: "prog2 = ?prog1\<lparr>overall_stats := Some (raise_longest stats1)\<rparr>"
    by blast
  from streak_step_completed [OF step] n
  have "total_tasks_completed stats1 = None" by (simp add: empty_stats_def)
  then show "total_tasks_completed (get_or empty_stats (overall_stats prog')) = None"
    by (simp add: res p2 raise_longest_def)
  from update_streak_rate [OF streak'] n show "stored_rate prog' = None"
    by (simp add: res stored_rate_def)
qed

subsection \<open>The examples, evaluated\<close>

lemma idle_schedule_total: "total_scheduled idle_schedule = 0"
  by (simp add: total_scheduled_def idle_schedule_def)

lemma example_call:
  "complete_task idle_schedule example_progress example_now ''t2'' None (Some 2) =
     Inr (example_progress
       \<lparr>daily_log := Some [example_entry, new_entry example_now ''t2'' None (Some 2)],
        overall_stats := Some (example_stats\<lparr>total_tasks_completed := Some 23\<rparr>),
        last_updated := Some (Iso example_now)\<rparr>)"
  by (simp add: complete_task_def Let_def update_completion_rate_no_tasks idle_schedule_total
        append_log_def shared_stats_def count_completion_def update_streak_def streak_step_def
        raise_longest_def example_progress_def example_stats_def example_entry_def
        example_now_def new_entry_def)

subsection \<open>The recommendation rules\<close>

lemma streak_rule_type: "r \<in> set (streak_rule n) \<Longrightarrow> rec_type r = ''motivation''"
  by (auto simp: streak_rule_def maintain_rec_def start_streak_rec_def split: if_splits)

lemma phase_rule_type: "r \<in> set (phase_rule c ps) \<Longrightarrow> rec_type r = ''progression''"
  by (auto simp: phase_rule_def Let_def advance_phase_rec_def split: if_splits)

lemma workload_rule_type: "r \<in> set (workload_rule x) \<Longrightarrow> rec_type r = ''workload''"
  by (auto simp: workload_rule_def reduce_tasks_rec_def increase_difficulty_rec_def
        split: if_splits)

lemma workload_recs:
  "filter (\<lambda>r. rec_type r = ''workload'') (get_recommendations sched prog)
     = workload_rule (read_rate prog)"
proof -
  have a: "filter (\<lambda>r. rec_type r = ''workload'') (workload_rule x) = workload_rule x" for x
    by (rule filter_True) (simp add: workload_rule_type)
  have b: "filter (\<lambda>r. rec_type r = ''workload'') (streak_rule n) = []" for n
    by (auto simp: filter_empty_conv dest: streak_rule_type)
  have c: "filter (\<lambda>r. rec_type r = ''workload'') (phase_rule k ps) = []" for k ps
    by (auto simp: filter_empty_conv dest: phase_rule_type)
  show ?thesis
    by (simp add: get_recommendations_def Let_def read_rate_def a b c)
qed

lemma float_lt_gt: "float_lt x 70 \<Longrightarrow> \<not> float_gt x 90"
  by (cases x) auto

lemma reduce_neq_increase: "reduce_tasks_rec \<noteq> increase_difficulty_rec"
  by (simp add: reduce_tasks_rec_def increase_difficulty_rec_def)

lemma mem_workload:
  "rec_type x = ''workload'' \<Longrightarrow>
     x \<in> set (get_recommendations sched prog) \<longleftrightarrow> x \<in> set (workload_rule (read_rate prog))"
  using workload_recs [of sched prog, symmetric] by simp

subsection \<open>Increasing the difficulty\<close>

lemma increase_task_scaled:
  assumes "\<bar>get_or 60 (duration_minutes t)\<bar> < 2 ^ 50"
  shows "increase_task t = Inr (scaled t)"
  using scale_duration_exact [OF assms] by (simp add: increase_task_def scaled_def)

lemma for_each_map:
  assumes "\<And>x. x \<in> set xs \<Longrightarrow> f x = Inr (g x)"
  shows "for_each f xs = Inr (map g xs)"
  using assms by (induction xs) simp_all

lemma increase_day_scaled:
  assumes "\<And>t. t \<in> set (get_or [] (tasks day_data)) \<Longrightarrow>
    \<bar>get_or 60 (duration_minutes t)\<bar> < 2 ^ 50"
  shows "increase_day (day, day_data) =
    Inr (day, day_data\<lparr>tasks := map_option (map scaled) (tasks day_data)\<rparr>)"
proof (cases "tasks day_data")
  case None
  then show ?thesis by (simp add: increase_day_def)
next
  case (Some ts)
  with assms have "for_each increase_task ts = Inr (map scaled ts)"
    by (intro for_each_map increase_task_scaled) simp
  with Some show ?thesis by (simp add: increase_day_def)
qed

subsection \<open>Statistics\<close>






subsection \<open>The completion rate\<close>





subsection \<open>The completion rate of the example store\<close>














section \<open>The claims\<close>




text \<open>
  C2. After every call of \<^verbatim>\<open>complete_task\<close> that returns, the current streak is at most
  the longest streak (both read with the default 0).
\<close>

theorem complete_task_streak_le_longest:
  assumes "complete_task sched prog now tid hours rating = Inr prog'"
  shows "current_streak prog' \<le> longest_streak prog'"
proof -
  from complete_task_cases [OF assms] obtain stats' prog2 where
    streak: "update_streak (shared_stats (append_log prog (new_entry now tid hours rating)) stats')
       now = Inr prog2" and
    res: "prog' = prog2\<lparr>last_updated := Some (Iso now)\<rparr>"
    by blast
  have "current_streak prog2 \<le> longest_streak prog2"
    by (rule update_streak_le_longest [OF streak]) simp
  then show ?thesis
    by (simp add: res current_streak_def longest_streak_def)
qed

theorem complete_task_streak_le_longest_witness:
  "complete_task idle_schedule example_progress example_now ''t2'' None (Some 2) =
     Inr (example_progress
       \<lparr>daily_log := Some [example_entry, new_entry example_now ''t2'' None (Some 2)],
        overall_stats := Some (example_stats\<lparr>total_tasks_completed := Some 23\<rparr>),
        last_updated := Some (Iso example_now)\<rparr>) \<and>
   current_streak (example_progress
       \<lparr>daily_log := Some [example_entry, new_entry example_now ''t2'' None (Some 2)],
        overall_stats := Some (example_stats\<lparr>total_tasks_completed := Some 23\<rparr>),
        last_updated := Some (Iso example_now)\<rparr>) \<le>
   longest_streak (example_progress
       \<lparr>daily_log := Some [example_entry, new_entry example_now ''t2'' None (Some 2)],
        overall_stats := Some (example_stats\<lparr>total_tasks_completed := Some 23\<rparr>),
        last_updated := Some (Iso example_now)\<rparr>)"
  using complete_task_streak_le_longest [OF example_call] example_call by simp





text \<open>
  C6. With a schedule that has no task at all, no sequence of \<^verbatim>\<open>complete_task\<close> calls
  changes the stored completion rate, or stores one where none was.
\<close>

theorem no_tasks_rate_never_modified:
  assumes "total_scheduled sched = 0"
    and "complete_tasks sched prog calls = Inr prog'"
  shows "stored_rate prog' = stored_rate prog"
  using assms(2)
proof (induction calls arbitrary: prog)
  case Nil
  then show ?case by simp
next
  case (Cons c calls)
  obtain now tid hours rating where c: "c = (now, tid, hours, rating)"
    by (cases c) auto
  from Cons.prems obtain prog1 where
    first: "complete_task sched prog now tid hours rating = Inr prog1" and
    rest: "complete_tasks sched prog1 calls = Inr prog'"
    by (auto simp: c and_then_Inr_iff)
  from Cons.IH [OF rest] complete_task_no_tasks_rate [OF assms(1) first]
  show ?case by simp
qed

theorem no_tasks_rate_never_modified_witness:
  "total_scheduled idle_schedule = 0 \<and>
   complete_tasks idle_schedule example_progress [(example_now, ''t2'', None, Some 2)] =
     Inr (example_progress
       \<lparr>daily_log := Some [example_entry, new_entry example_now ''t2'' None (Some 2)],
        overall_stats := Some (example_stats\<lparr>total_tasks_completed := Some 23\<rparr>),
        last_updated := Some (Iso example_now)\<rparr>) \<and>
   stored_rate (example_progress
       \<lparr>daily_log := Some [example_entry, new_entry example_now ''t2'' None (Some 2)],
        overall_stats := Some (example_stats\<lparr>total_tasks_completed := Some 23\<rparr>),
        last_updated := Some (Iso example_now)\<rparr>) = stored_rate example_progress \<and>
   stored_rate example_progress = Some (Finite 70)"
proof -
  have run: "complete_tasks idle_schedule example_progress [(example_now, ''t2'', None, Some 2)] =
     Inr (example_progress
       \<lparr>daily_log := Some [example_entry, new_entry example_now ''t2'' None (Some 2)],
        overall_stats := Some (example_stats\<lparr>total_tasks_completed := Some 23\<rparr>),
        last_updated := Some (Iso example_now)\<rparr>)"
    by (simp add: example_call)
  have "stored_rate example_progress = Some (Finite 70)"
    by (simp add: stored_rate_def example_progress_def example_stats_def)
  with no_tasks_rate_never_modified [OF idle_schedule_total run] idle_schedule_total run
  show ?thesis by simp
qed

text \<open>
  C5. The workload recommendation: \<^verbatim>\<open>reduce_tasks\<close> (type workload, priority high) is in the
  list exactly when the rate read is below 70, \<^verbatim>\<open>increase_difficulty\<close> (type workload,
  priority medium) exactly when it is above 90, the list has no other recommendation of
  type workload, and none at all when the rate is 70 or 90.
\<close>

theorem workload_recommendation_thresholds:
  "(reduce_tasks_rec \<in> set (get_recommendations sched prog) \<longleftrightarrow> float_lt (read_rate prog) 70) \<and>
   (increase_difficulty_rec \<in> set (get_recommendations sched prog)
      \<longleftrightarrow> float_gt (read_rate prog) 90) \<and>
   (\<forall>r \<in> set (get_recommendations sched prog).
      rec_type r = ''workload'' \<longrightarrow> r = reduce_tasks_rec \<or> r = increase_difficulty_rec) \<and>
   (read_rate prog = Finite 70 \<or> read_rate prog = Finite 90 \<longrightarrow>
      (\<forall>r \<in> set (get_recommendations sched prog). rec_type r \<noteq> ''workload'')) \<and>
   rec_type reduce_tasks_rec = ''workload'' \<and> rec_priority reduce_tasks_rec = ''high'' \<and>
   rec_action reduce_tasks_rec = ''reduce_tasks'' \<and>
   rec_type increase_difficulty_rec = ''workload'' \<and>
   rec_priority increase_difficulty_rec = ''medium'' \<and>
   rec_action increase_difficulty_rec = ''increase_difficulty''"
proof -
  have t1: "rec_type reduce_tasks_rec = ''workload''"
    by (simp add: reduce_tasks_rec_def)
  have t2: "rec_type increase_difficulty_rec = ''workload''"
    by (simp add: increase_difficulty_rec_def)
  have 1: "reduce_tasks_rec \<in> set (get_recommendations sched prog)
      \<longleftrightarrow> float_lt (read_rate prog) 70"
    unfolding mem_workload [OF t1]
    by (simp add: workload_rule_def reduce_neq_increase)
  have 2: "increase_difficulty_rec \<in> set (get_recommendations sched prog)
      \<longleftrightarrow> float_gt (read_rate prog) 90"
    unfolding mem_workload [OF t2]
    using float_lt_gt [of "read_rate prog"] reduce_neq_increase
    by (auto simp add: workload_rule_def)
  have 3: "\<forall>r \<in> set (get_recommendations sched prog).
      rec_type r = ''workload'' \<longrightarrow> r = reduce_tasks_rec \<or> r = increase_difficulty_rec"
    by (auto simp: mem_workload workload_rule_def split: if_splits)
  have 4: "read_rate prog = Finite 70 \<or> read_rate prog = Finite 90 \<longrightarrow>
      (\<forall>r \<in> set (get_recommendations sched prog). rec_type r \<noteq> ''workload'')"
    by (auto simp: mem_workload workload_rule_def)
  show ?thesis
    using 1 2 3 4 by (simp add: reduce_tasks_rec_def increase_difficulty_rec_def)
qed

theorem workload_recommendation_thresholds_witness:
  "read_rate example_progress = Finite 70 \<and>
   reduce_tasks_rec \<notin> set (get_recommendations example_schedule example_progress) \<and>
   increase_difficulty_rec \<notin> set (get_recommendations example_schedule example_progress) \<and>
   filter (\<lambda>r. rec_type r = ''workload'')
     (get_recommendations example_schedule example_progress) = []"
proof -
  have "read_rate example_progress = Finite 70"
    by (simp add: read_rate_def example_progress_def example_stats_def)
  with workload_recommendation_thresholds [of example_schedule example_progress]
  show ?thesis by (simp add: filter_empty_conv)
qed

text \<open>
  C8. \<^verbatim>\<open>advance_phase\<close> sets the phase to the current phase plus 1, capped at 4 (an absent
  phase reads as 1), and changes nothing else; from phase 4 the schedule stays as it is.
\<close>

theorem advance_phase_capped:
  "adjust_schedule ''advance_phase'' sched =
     Inr (sched\<lparr>current_phase := Some (min (get_or 1 (current_phase sched) + 1) 4)\<rparr>) \<and>
   (current_phase sched = Some 4 \<longrightarrow> adjust_schedule ''advance_phase'' sched = Inr sched)"
  by (simp add: adjust_schedule_def)

theorem advance_phase_capped_witness:
  "current_phase example_schedule = Some 4 \<and>
   adjust_schedule ''advance_phase'' example_schedule = Inr example_schedule \<and>
   adjust_schedule ''advance_phase'' idle_schedule = Inr (idle_schedule\<lparr>current_phase := Some 2\<rparr>)"
proof -
  have "current_phase example_schedule = Some 4"
    by (simp add: example_schedule_def)
  moreover have "current_phase idle_schedule = Some 1"
    by (simp add: idle_schedule_def)
  ultimately show ?thesis
    using advance_phase_capped [of example_schedule] advance_phase_capped [of idle_schedule]
    by simp
qed

text \<open>
  C10. When the store holds no completion rate, \<^verbatim>\<open>get_recommendations\<close> reads the rate as
  0 and its list begins with the \<^verbatim>\<open>reduce_tasks\<close> recommendation.
\<close>

theorem absent_rate_recommends_reduce_tasks:
  assumes "stored_rate prog = None"
  shows "read_rate prog = Finite 0 \<and>
    reduce_tasks_rec \<in> set (get_recommendations sched prog) \<and>
    get_recommendations sched prog = reduce_tasks_rec # tl (get_recommendations sched prog)"
proof -
  from assms have r: "read_rate prog = Finite 0"
    by (cases "overall_stats prog") (simp_all add: stored_rate_def read_rate_def empty_stats_def)
  then have "get_recommendations sched prog = reduce_tasks_rec #
      (streak_rule (get_or 0 (current_streak_days (get_or empty_stats (overall_stats prog))))
         @ phase_rule (get_or 1 (current_phase sched)) (get_or [] (phase_progress prog)))"
    by (simp add: get_recommendations_def Let_def read_rate_def workload_rule_def)
  with r show ?thesis by simp
qed

theorem absent_rate_recommends_reduce_tasks_witness:
  "stored_rate empty_progress = None \<and>
   read_rate empty_progress = Finite 0 \<and>
   reduce_tasks_rec \<in> set (get_recommendations example_schedule empty_progress)"
proof -
  have "stored_rate empty_progress = None"
    by (simp add: stored_rate_def empty_progress_def)
  from absent_rate_recommends_reduce_tasks [OF this, of example_schedule] this
  show ?thesis by simp
qed

text \<open>
  C7. \<^verbatim>\<open>increase_difficulty\<close> replaces the duration of every task of every day by the
  duration (60 when absent) times 1.2, truncated to an integer, and changes nothing else,
  as long as every duration is below \<open>2 ^ 50\<close> in absolute value: there the float product
  truncates to the exact value. 60 becomes 72 and 25 becomes 30.
\<close>

theorem increase_difficulty_scales:
  assumes "\<forall>t \<in> set (all_tasks sched). \<bar>get_or 60 (duration_minutes t)\<bar> < 2 ^ 50"
  shows "adjust_schedule ''increase_difficulty'' sched = Inr (map_tasks scaled sched)"
proof (cases "daily_tasks sched")
  case None
  then show ?thesis by (simp add: adjust_schedule_def map_tasks_def)
next
  case (Some days)
  have "for_each increase_day days =
    Inr (map (\<lambda>(day, day_data).
      (day, day_data\<lparr>tasks := map_option (map scaled) (tasks day_data)\<rparr>)) days)"
  proof (rule for_each_map)
    fix x assume x: "x \<in> set days"
    obtain day day_data where p: "x = (day, day_data)" by (cases x)
    have "\<bar>get_or 60 (duration_minutes t)\<bar> < 2 ^ 50"
      if "t \<in> set (get_or [] (tasks day_data))" for t
    proof -
      from x that have "t \<in> set (all_tasks sched)"
        by (force simp: all_tasks_def Some p)
      with assms show ?thesis by blast
    qed
    from increase_day_scaled [OF this]
    show "increase_day x = Inr ((\<lambda>(day, day_data).
      (day, day_data\<lparr>tasks := map_option (map scaled) (tasks day_data)\<rparr>)) x)"
      by (simp add: p)
  qed
  with Some show ?thesis by (simp add: adjust_schedule_def map_tasks_def)
qed

theorem increase_difficulty_scales_witness:
  "list_all (\<lambda>t. \<bar>get_or 60 (duration_minutes t)\<bar> < 2 ^ 50) (all_tasks example_schedule) \<and>
   map (\<lambda>t. get_or 60 (duration_minutes t)) example_tasks = [60, 25, 60, 48, 7] \<and>
   map duration_minutes (all_tasks (map_tasks scaled example_schedule)) =
     [Some 72, Some 30, Some 72, Some 57, Some 8, Some 72, Some 30, Some 72, Some 57, Some 8] \<and>
   adjust_schedule ''increase_difficulty'' example_schedule =
     Inr (map_tasks scaled example_schedule)"
proof -
  have b: "\<forall>t \<in> set (all_tasks example_schedule). \<bar>get_or 60 (duration_minutes t)\<bar> < 2 ^ 50"
    by (simp add: all_tasks_def example_schedule_def example_tasks_def)
  have v: "map duration_minutes (all_tasks (map_tasks scaled example_schedule)) =
     [Some 72, Some 30, Some 72, Some 57, Some 8, Some 72, Some 30, Some 72, Some 57, Some 8]"
    by (simp add: all_tasks_def map_tasks_def example_schedule_def example_tasks_def scaled_def
          trunc_def floor_eq_iff)
  have e: "map (\<lambda>t. get_or 60 (duration_minutes t)) example_tasks = [60, 25, 60, 48, 7]"
    by (simp add: example_tasks_def)
  from increase_difficulty_scales [OF b] b v e show ?thesis
    by (simp add: list_all_iff)
qed

lemma scale_long: "scale_duration 3752999689475414 = Inr 4503599627370497"
proof -
  have f: "float_of_int 3752999689475414 = Inr 3752999689475414"
    using float_of_int_exact [of 3752999689475414] by simp
  have m: "float_mul 3752999689475414 (5404319552844595 / 4503599627370496) =
      Finite (fl (3752999689475414 * (5404319552844595 / 4503599627370496)))"
    by (rule float_mul_Finite) simp
  have "fl (3752999689475414 * (5404319552844595 / 4503599627370496)) =
      of_int 4503599627370497 * power_int 2 (52 - 52)"
    by (rule fl_eqI) simp_all
  with f m show ?thesis
    by (simp add: scale_duration_def fl_12_10 fl_6_5 trunc_def)
qed

theorem increase_difficulty_counterexample:
  "adjust_schedule ''increase_difficulty'' long_schedule =
     Inr (map_tasks (\<lambda>t. t\<lparr>duration_minutes := Some 4503599627370497\<rparr>) long_schedule) \<and>
   map_tasks scaled long_schedule =
     map_tasks (\<lambda>t. t\<lparr>duration_minutes := Some 4503599627370496\<rparr>) long_schedule \<and>
   adjust_schedule ''increase_difficulty'' long_schedule \<noteq> Inr (map_tasks scaled long_schedule)"
  by (simp add: adjust_schedule_def long_schedule_def increase_day_def increase_task_def
        scale_long map_tasks_def scaled_def trunc_def floor_eq_iff)







end
